theory Spec2Isabelle
  imports Main "HOL-Library.AList" "HOL-Library.Sublist" "HOL-Library.Code_Target_Nat"
begin

section \<open>Bytes, strings and the string methods the server calls\<close>

text \<open>
  A Python \<^verbatim>\<open>bytes\<close> value is a HOL string: a list of 8-bit characters. A Python
  \<^verbatim>\<open>str\<close> is a list of Unicode code points, each a natural number. \<open>ustr\<close> gives
  the \<^verbatim>\<open>str\<close> of a literal of the source that is written in ASCII.
\<close>

type_synonym bytes = string

type_synonym pystr = "nat list"

definition ustr :: "string \<Rightarrow> pystr" where
  "ustr s = map of_char s"

definition LF :: nat where
  "LF = 0x0A"

definition CR :: nat where
  "CR = 0x0D"

definition TAB :: nat where
  "TAB = 0x09"

definition SPACE :: nat where
  "SPACE = 0x20"

text \<open>
  \<^verbatim>\<open>b.decode("utf-8")\<close>, on the values of the bytes. A byte below 0x80 is its own
  code point; a lead byte 0xC2 to 0xDF takes one continuation byte, 0xE0 to 0xEF two,
  0xF0 to 0xF4 three. The second byte is restricted after 0xE0 and 0xF0 (no overlong
  form), after 0xED (no surrogate) and after 0xF4 (nothing above U+10FFFF). Every other
  sequence raises \<^verbatim>\<open>UnicodeDecodeError\<close>: the result is \<open>None\<close>.
\<close>

definition cont :: "nat \<Rightarrow> bool" where
  "cont b = (0x80 \<le> b \<and> b \<le> 0xBF)"

fun decode_values :: "nat list \<Rightarrow> pystr option" where
  "decode_values [] = Some []"
| "decode_values (b0 # bs) =
     (if b0 < 0x80 then map_option ((#) b0) (decode_values bs)
      else if 0xC2 \<le> b0 \<and> b0 \<le> 0xDF then
        (case bs of
           b1 # r \<Rightarrow>
             if cont b1
             then map_option ((#) ((b0 - 0xC0) * 64 + (b1 - 0x80))) (decode_values r)
             else None
         | _ \<Rightarrow> None)
      else if 0xE0 \<le> b0 \<and> b0 \<le> 0xEF then
        (case bs of
           b1 # b2 # r \<Rightarrow>
             if cont b1 \<and> cont b2 \<and> (b0 \<noteq> 0xE0 \<or> 0xA0 \<le> b1) \<and> (b0 \<noteq> 0xED \<or> b1 \<le> 0x9F)
             then map_option
                    ((#) ((b0 - 0xE0) * 4096 + (b1 - 0x80) * 64 + (b2 - 0x80)))
                    (decode_values r)
             else None
         | _ \<Rightarrow> None)
      else if 0xF0 \<le> b0 \<and> b0 \<le> 0xF4 then
        (case bs of
           b1 # b2 # b3 # r \<Rightarrow>
             if cont b1 \<and> cont b2 \<and> cont b3 \<and> (b0 \<noteq> 0xF0 \<or> 0x90 \<le> b1) \<and>
                (b0 \<noteq> 0xF4 \<or> b1 \<le> 0x8F)
             then map_option
                    ((#) ((b0 - 0xF0) * 262144 + (b1 - 0x80) * 4096 + (b2 - 0x80) * 64 +
                          (b3 - 0x80)))
                    (decode_values r)
             else None
         | _ \<Rightarrow> None)
      else None)"

definition decode :: "bytes \<Rightarrow> pystr option" where
  "decode b = decode_values (map of_char b)"

text \<open>
  \<^verbatim>\<open>str.split()\<close> and \<^verbatim>\<open>str.rstrip()\<close> without arguments work on white space:
  the code points for which \<^verbatim>\<open>str.isspace\<close> holds.
\<close>

definition isspace :: "nat \<Rightarrow> bool" where
  "isspace c =
     ((0x09 \<le> c \<and> c \<le> 0x0D) \<or> (0x1C \<le> c \<and> c \<le> 0x20) \<or> c = 0x85 \<or> c = 0xA0 \<or>
      c = 0x1680 \<or> (0x2000 \<le> c \<and> c \<le> 0x200A) \<or> c = 0x2028 \<or> c = 0x2029 \<or>
      c = 0x202F \<or> c = 0x205F \<or> c = 0x3000)"

text \<open>
  \<^verbatim>\<open>str.lower()\<close>. The capital letters A to Z move to a to z, U+0130 becomes the
  two code points U+0069 U+0307, and the Kelvin sign U+212A becomes k. Python maps every
  other code point to one code point outside ASCII, or to itself; the model keeps it,
  so that the result has the same length and the same ASCII code points at the same
  places as in Python. The server only asks whether the result starts with an ASCII
  word.
\<close>

definition lower_char :: "nat \<Rightarrow> pystr" where
  "lower_char c =
     (if 0x41 \<le> c \<and> c \<le> 0x5A then [c + 0x20]
      else if c = 0x130 then [0x69, 0x307]
      else if c = 0x212A then [0x6B]
      else [c])"

definition lower :: "pystr \<Rightarrow> pystr" where
  "lower s = concat (map lower_char s)"

text \<open>\<^verbatim>\<open>s.startswith(p)\<close>.\<close>

definition startswith :: "pystr \<Rightarrow> pystr \<Rightarrow> bool" where
  "startswith s p = prefix p s"

text \<open>
  \<^verbatim>\<open>s.split(" ")\<close>: split at every single separator; empty pieces are kept, and a
  string without the separator is returned whole (the empty string gives one empty
  piece).
\<close>

fun split_on :: "nat \<Rightarrow> pystr \<Rightarrow> pystr list" where
  "split_on sep [] = [[]]"
| "split_on sep (c # cs) =
     (if c = sep then [] # split_on sep cs
      else (case split_on sep cs of
              [] \<Rightarrow> [[c]]
            | t # ts \<Rightarrow> (c # t) # ts))"

text \<open>
  \<^verbatim>\<open>s.split()\<close>: runs of white space separate the pieces, leading and trailing
  white space is dropped, no piece is empty.
\<close>

function split_ws :: "pystr \<Rightarrow> pystr list" where
  "split_ws s =
     (let s' = dropWhile isspace s
      in if s' = [] then []
         else takeWhile (\<lambda>c. \<not> isspace c) s' # split_ws (dropWhile (\<lambda>c. \<not> isspace c) s'))"
  by pat_completeness auto
termination
proof (relation "measure length")
  show "wf (measure length)" by simp
next
  fix s s' :: pystr
  assume s': "s' = dropWhile isspace s" and ne: "s' \<noteq> []"
  have "\<not> isspace (hd s')"
    using ne unfolding s' by (rule hd_dropWhile)
  then have "length (dropWhile (\<lambda>c. \<not> isspace c) s') < length s'"
    using ne by (cases s') (simp_all add: length_dropWhile_le less_Suc_eq_le)
  moreover have "length s' \<le> length s"
    by (simp add: s' length_dropWhile_le)
  ultimately show "(dropWhile (\<lambda>c. \<not> isspace c) s', s) \<in> measure length"
    by simp
qed

declare split_ws.simps [simp del]

text \<open>\<^verbatim>\<open>s.rstrip()\<close>: trailing white space is dropped.\<close>

definition rstrip :: "pystr \<Rightarrow> pystr" where
  "rstrip s = rev (dropWhile isspace (rev s))"

section \<open>The data of a node\<close>

text \<open>
  The store \<^verbatim>\<open>kv\<close> is a Python dict from strings to strings: an association
  list with one pair per key, in insertion order. \<^verbatim>\<open>kv[key] = val\<close> replaces the
  value of a key that is present, in place, and appends a new key at the end;
  \<^verbatim>\<open>kv.get(key)\<close> is the optional value.
\<close>

type_synonym store = "(pystr \<times> pystr) list"

definition setitem :: "pystr \<Rightarrow> pystr \<Rightarrow> store \<Rightarrow> store" where
  "setitem key val kv = AList.update key val kv"

definition get :: "store \<Rightarrow> pystr \<Rightarrow> pystr option" where
  "get kv key = map_of kv key"

text \<open>\<^verbatim>\<open>dict(pairs)\<close> and \<^verbatim>\<open>kv.update(other)\<close> store the pairs one after the other.\<close>

definition dict_update :: "store \<Rightarrow> (pystr \<times> pystr) list \<Rightarrow> store" where
  "dict_update kv pairs = fold (\<lambda>(k, v). setitem k v) pairs kv"

definition dict :: "(pystr \<times> pystr) list \<Rightarrow> store" where
  "dict pairs = dict_update [] pairs"

text \<open>
  The exceptions the server can raise: a failed tuple unpacking is a \<^verbatim>\<open>ValueError\<close>,
  a failed \<^verbatim>\<open>decode\<close> a \<^verbatim>\<open>UnicodeDecodeError\<close>, a failed \<^verbatim>\<open>assert\<close> an
  \<^verbatim>\<open>AssertionError\<close>; \<^verbatim>\<open>OSError\<close> stands for every operating system error other
  than \<^verbatim>\<open>FileNotFoundError\<close>, and \<^verbatim>\<open>OtherError\<close> for whatever else a function of
  \<^verbatim>\<open>pykv.util\<close> may raise.
\<close>

datatype exn =
  ValueError
| UnicodeDecodeError
| AssertionError
| FileNotFoundError
| OSError
| OtherError

section \<open>Recovery: \<^verbatim>\<open>restore_from_file\<close>\<close>

text \<open>
  What \<^verbatim>\<open>open("kv.log")\<close> finds: no file, a file that cannot be opened or read,
  or the bytes of the file. The file is read as text in UTF-8.
\<close>

datatype log_file = Missing | Unreadable | Bytes bytes

text \<open>
  A file opened in text mode translates \<^verbatim>\<open>\r\n\<close> and a lone \<^verbatim>\<open>\r\<close> to
  \<^verbatim>\<open>\n\<close>; iterating over it yields the lines, each with its \<^verbatim>\<open>\n\<close> (the last
  line may have none).
\<close>

fun universal_newlines :: "pystr \<Rightarrow> pystr" where
  "universal_newlines [] = []"
| "universal_newlines [c] = (if c = CR then [LF] else [c])"
| "universal_newlines (c # d # ds) =
     (if c = CR \<and> d = LF then LF # universal_newlines ds
      else if c = CR then LF # universal_newlines (d # ds)
      else c # universal_newlines (d # ds))"

fun readlines :: "pystr \<Rightarrow> pystr list" where
  "readlines [] = []"
| "readlines (c # cs) =
     (if c = LF then [c] # readlines cs
      else (case readlines cs of
              [] \<Rightarrow> [[c]]
            | l # ls \<Rightarrow> (c # l) # ls))"

text \<open>
  The body of the loop: \<^verbatim>\<open>_, k, v = line.rstrip().split()\<close> raises unless the line
  has exactly three pieces; then \<^verbatim>\<open>kv[k] = v\<close>.
\<close>

fun restore_lines :: "pystr list \<Rightarrow> store \<Rightarrow> exn + store" where
  "restore_lines [] kv = Inr kv"
| "restore_lines (line # rest) kv =
     (case split_ws (rstrip line) of
        [_, k, v] \<Rightarrow> restore_lines rest (setitem k v kv)
      | _ \<Rightarrow> Inl ValueError)"

text \<open>
  \<^verbatim>\<open>open\<close> raises when there is no file or when the file cannot be opened; reading
  raises \<^verbatim>\<open>UnicodeDecodeError\<close> when the bytes are not UTF-8. The model decodes the
  whole file before the first line is split, as Python does for a file that fits its
  read buffer; for a longer file with an undecodable byte and a line of the wrong shape,
  Python may meet the line first and raise \<^verbatim>\<open>ValueError\<close> instead. The \<^verbatim>\<open>try\<close> block
  holds the \<^verbatim>\<open>open\<close> and the loop; its handler catches \<^verbatim>\<open>FileNotFoundError\<close> only
  and returns the store, which is still empty when \<^verbatim>\<open>open\<close> raises.
\<close>

definition open_kv_log :: "log_file \<Rightarrow> exn + pystr" where
  "open_kv_log file =
     (case file of
        Missing \<Rightarrow> Inl FileNotFoundError
      | Unreadable \<Rightarrow> Inl OSError
      | Bytes b \<Rightarrow>
          (case decode b of
             None \<Rightarrow> Inl UnicodeDecodeError
           | Some t \<Rightarrow> Inr (universal_newlines t)))"

definition restore_from_file :: "log_file \<Rightarrow> exn + store" where
  "restore_from_file file =
     (case (case open_kv_log file of
              Inl e \<Rightarrow> Inl e
            | Inr fp \<Rightarrow> restore_lines (readlines fp) []) of
        Inl FileNotFoundError \<Rightarrow> Inr []
      | Inl e \<Rightarrow> Inl e
      | Inr kv \<Rightarrow> Inr kv)"

section \<open>The state of a running node and its input and output\<close>

text \<open>
  \<^verbatim>\<open>kv_log\<close> is a text file opened for appending: \<^verbatim>\<open>write\<close> adds to the buffer of
  the file object, \<^verbatim>\<open>flush\<close> moves the buffer to the file. Both fields hold the text
  written by this process.
\<close>

record textio =
  disk :: pystr
  buffer :: pystr

definition textio_write :: "pystr \<Rightarrow> textio \<Rightarrow> textio" where
  "textio_write s f = f\<lparr>buffer := buffer f @ s\<rparr>"

definition textio_flush :: "textio \<Rightarrow> textio" where
  "textio_flush f = \<lparr>disk = disk f @ buffer f, buffer = []\<rparr>"

text \<open>
  What the code does, in program order. A handler sends a string or a number on its
  socket (\<^verbatim>\<open>send_str\<close> is called with \<^verbatim>\<open>None\<close> when \<^verbatim>\<open>kv.get\<close> finds no value),
  writes to the log, flushes the log, puts an entry on the replication queue.
  \<^verbatim>\<open>main\<close> updates the store from the seed, opens the log, creates, seeds and starts
  the gossip node, starts the two replication threads, and creates, binds and opens
  the client socket, on which it then accepts connections. The \<^verbatim>\<open>print\<close> calls are left
  out.
\<close>

datatype event =
  SendStr "pystr option"
| SendUInt32 nat
| LogWrite pystr
| LogFlush
| QueuePut pystr
| KvUpdate
| OpenLog
| GossipNode
| GossipSeed
| GossipStart
| StartThread string
| SockBind
| SockListen
| SignalHandlers
| AcceptLoop

record node =
  kv :: store
  kv_log :: textio
  replication_log :: "pystr list"
  trace :: "event list"

definition send_str :: "pystr option \<Rightarrow> node \<Rightarrow> node" where
  "send_str s n = n\<lparr>trace := trace n @ [SendStr s]\<rparr>"

definition send_uint32 :: "nat \<Rightarrow> node \<Rightarrow> node" where
  "send_uint32 k n = n\<lparr>trace := trace n @ [SendUInt32 k]\<rparr>"

definition log_write :: "pystr \<Rightarrow> node \<Rightarrow> node" where
  "log_write s n = n\<lparr>kv_log := textio_write s (kv_log n), trace := trace n @ [LogWrite s]\<rparr>"

definition log_flush :: "node \<Rightarrow> node" where
  "log_flush n = n\<lparr>kv_log := textio_flush (kv_log n), trace := trace n @ [LogFlush]\<rparr>"

definition queue_put :: "pystr \<Rightarrow> node \<Rightarrow> node" where
  "queue_put s n =
     n\<lparr>replication_log := replication_log n @ [s], trace := trace n @ [QueuePut s]\<rparr>"

text \<open>The strings a handler has sent, in order.\<close>

fun sent_strings :: "event list \<Rightarrow> pystr list" where
  "sent_strings [] = []"
| "sent_strings (SendStr (Some s) # es) = s # sent_strings es"
| "sent_strings (_ # es) = sent_strings es"

text \<open>
  What reading one message from a socket gives: the bytes that \<^verbatim>\<open>read_bytes\<close>
  returns, or the exception that \<^verbatim>\<open>recv\<close>, \<^verbatim>\<open>decode_type\<close>, \<^verbatim>\<open>read_uint32\<close> or
  \<^verbatim>\<open>read_bytes\<close> raises. These functions belong to \<^verbatim>\<open>pykv.util\<close> and to the socket
  library.
\<close>

type_synonym frame = "exn + bytes"

section \<open>The client handler: \<^verbatim>\<open>handle_client\<close>\<close>

text \<open>The answer to an unknown command is the one code point U+1F4A9.\<close>

definition error_marker :: pystr where
  "error_marker = [0x1F4A9]"

text \<open>
  One turn of the loop, for the message read. The bytes are decoded first; both tuple
  unpackings raise before anything is changed or sent.
\<close>

definition handle_command :: "frame \<Rightarrow> node \<Rightarrow> exn + node" where
  "handle_command fr n =
     (case fr of
        Inl e \<Rightarrow> Inl e
      | Inr b \<Rightarrow>
          (case decode b of
             None \<Rightarrow> Inl UnicodeDecodeError
           | Some data \<Rightarrow>
               if startswith data (ustr ''set '') then
                 (case split_on SPACE data of
                    [_, key, val] \<Rightarrow>
                      (let n1 = n\<lparr>kv := setitem key val (kv n)\<rparr>;
                           n2 = send_str (Some (ustr ''OK'')) n1;
                           n3 = log_write data n2;
                           n4 = log_write [LF] n3;
                           n5 = log_flush n4
                       in Inr (queue_put data n5))
                  | _ \<Rightarrow> Inl ValueError)
               else if startswith data (ustr ''get '') then
                 (case split_on SPACE data of
                    [_, key] \<Rightarrow> Inr (send_str (get (kv n) key) n)
                  | _ \<Rightarrow> Inl ValueError)
               else Inr (send_str (Some error_marker) n)))"

text \<open>
  The loop over the messages read from the client socket; the end of the list is the
  end of the stream (\<^verbatim>\<open>read_uint32\<close> returns \<^verbatim>\<open>None\<close>). An exception ends the loop:
  the result holds it, with the state the node is left in.
\<close>

fun handle_client :: "frame list \<Rightarrow> node \<Rightarrow> exn option \<times> node" where
  "handle_client [] n = (None, n)"
| "handle_client (fr # rest) n =
     (case handle_command fr n of
        Inl e \<Rightarrow> (Some e, n)
      | Inr n' \<Rightarrow> handle_client rest n')"

section \<open>The broadcaster: \<^verbatim>\<open>replication_broadcast_loop\<close>\<close>

text \<open>
  A peer is the \<^verbatim>\<open>NodeParams\<close> of the gossip node: address and port. A delivery
  attempt connects (\<^verbatim>\<open>one_off_socket\<close>), sends and closes; the network decides how
  it ends.
\<close>

type_synonym peer = "string \<times> nat"

datatype delivery = Delivered | ConnectFails | SendFails

text \<open>
  The \<^verbatim>\<open>for\<close> loop over the peers of one entry. Each peer of the snapshot comes with
  the outcome the network has for the attempt; \<^verbatim>\<open>att\<close> collects the attempts made.
  Neither \<^verbatim>\<open>one_off_socket\<close> nor \<^verbatim>\<open>send_str\<close> is guarded, so a failure is raised.
\<close>

fun broadcast :: "pystr \<Rightarrow> (peer \<times> delivery) list \<Rightarrow> (peer \<times> pystr) list \<Rightarrow>
    exn option \<times> (peer \<times> pystr) list" where
  "broadcast data [] att = (None, att)"
| "broadcast data ((p, out) # ps) att =
     (case out of
        Delivered \<Rightarrow> broadcast data ps (att @ [(p, data)])
      | ConnectFails \<Rightarrow> (Some OSError, att @ [(p, data)])
      | SendFails \<Rightarrow> (Some OSError, att @ [(p, data)]))"

text \<open>
  The outer loop: every entry taken from the queue comes with the peers the gossip node
  lists at that moment. At the end of the list the loop waits in \<^verbatim>\<open>get\<close>: the result
  holds no exception.
\<close>

fun replication_broadcast_loop ::
    "(pystr \<times> (peer \<times> delivery) list) list \<Rightarrow> (peer \<times> pystr) list \<Rightarrow>
     exn option \<times> (peer \<times> pystr) list" where
  "replication_broadcast_loop [] att = (None, att)"
| "replication_broadcast_loop ((data, peers) # rest) att =
     (case broadcast data peers att of
        (Some e, att') \<Rightarrow> (Some e, att')
      | (None, att') \<Rightarrow> replication_broadcast_loop rest att')"

section \<open>The listener: \<^verbatim>\<open>replication_listen_loop\<close>\<close>

definition is_bootstrap :: "pystr \<Rightarrow> bool" where
  "is_bootstrap cmd = startswith (lower cmd) (ustr ''bootstrap'')"

text \<open>The \<^verbatim>\<open>for\<close> loop over \<^verbatim>\<open>kv.items()\<close> that answers a bootstrap request.\<close>

fun send_items :: "pystr \<Rightarrow> (pystr \<times> pystr) list \<Rightarrow> node \<Rightarrow> node" where
  "send_items cmd [] n = n"
| "send_items cmd ((k, v) # items) n =
     (let item = ustr ''set '' @ k @ ustr '' '' @ v;
          n1 = send_str (Some item) n;
          n2 = log_write cmd n1;
          n3 = log_write [LF] n2;
          n4 = log_flush n3
      in send_items cmd items n4)"

text \<open>
  One turn of the loop, for the message read from an accepted connection. The bytes are
  decoded first.
\<close>

definition replication_handle :: "frame \<Rightarrow> node \<Rightarrow> exn + node" where
  "replication_handle fr n =
     (case fr of
        Inl e \<Rightarrow> Inl e
      | Inr b \<Rightarrow>
          (case decode b of
             None \<Rightarrow> Inl UnicodeDecodeError
           | Some cmd \<Rightarrow>
               if is_bootstrap cmd then
                 Inr (send_items cmd (kv n) (send_uint32 (length (kv n)) n))
               else if \<not> startswith cmd (ustr ''set '') then Inr n
               else
                 (let chunks = split_on SPACE cmd
                  in if length chunks \<noteq> 3 then Inl AssertionError
                     else (case chunks of
                             [_, key, val] \<Rightarrow> Inr (n\<lparr>kv := setitem key val (kv n)\<rparr>)
                           | _ \<Rightarrow> Inl ValueError))))"

text \<open>
  The loop over the accepted connections, one message each. An exception ends the
  loop.
\<close>

fun replication_listen_loop :: "frame list \<Rightarrow> node \<Rightarrow> exn option \<times> node" where
  "replication_listen_loop [] n = (None, n)"
| "replication_listen_loop (fr # rest) n =
     (case replication_handle fr n of
        Inl e \<Rightarrow> (Some e, n)
      | Inr n' \<Rightarrow> replication_listen_loop rest n')"

section \<open>Bootstrap and start: \<^verbatim>\<open>bootstrap_kv\<close>, \<^verbatim>\<open>main\<close>\<close>

text \<open>
  \<^verbatim>\<open>read_kv\<close>, on what \<^verbatim>\<open>recv\<close> and \<^verbatim>\<open>read_str\<close> give: the string read, or the
  exception raised.
\<close>

definition read_kv :: "exn + pystr \<Rightarrow> exn + pystr \<times> pystr" where
  "read_kv r =
     (case r of
        Inl e \<Rightarrow> Inl e
      | Inr cmd \<Rightarrow>
          (case split_ws cmd of
             [_, k, v] \<Rightarrow> Inr (k, v)
           | _ \<Rightarrow> Inl ValueError))"

text \<open>
  \<^verbatim>\<open>read_kv(sock) for _ in range(n)\<close>: \<open>reads i\<close> is what the call number \<open>i\<close> on
  the socket gives; \<open>read_kvs reads i n\<close> makes the calls \<open>i\<close> to \<open>i + n - 1\<close>, and stops
  at the first that raises.
\<close>

fun read_kvs :: "(nat \<Rightarrow> exn + pystr) \<Rightarrow> nat \<Rightarrow> nat \<Rightarrow> exn + (pystr \<times> pystr) list" where
  "read_kvs reads i 0 = Inr []"
| "read_kvs reads i (Suc n) =
     (case read_kv (reads i) of
        Inl e \<Rightarrow> Inl e
      | Inr p \<Rightarrow> (case read_kvs reads (Suc i) n of
                    Inl e \<Rightarrow> Inl e
                  | Inr ps \<Rightarrow> Inr (p # ps)))"

text \<open>
  What the connection to the seed gives: the exception that the connect, the
  \<^verbatim>\<open>send_str\<close> or the \<^verbatim>\<open>read_uint32\<close> raises, or the count \<open>n\<close> that
  \<^verbatim>\<open>read_uint32\<close> returns and the reads that follow it.
\<close>

type_synonym seed_answer = "exn + nat \<times> (nat \<Rightarrow> exn + pystr)"

definition bootstrap_kv :: "seed_answer \<Rightarrow> exn + store" where
  "bootstrap_kv answer =
     (case answer of
        Inl e \<Rightarrow> Inl e
      | Inr (n, reads) \<Rightarrow>
          (case read_kvs reads 0 n of
             Inl e \<Rightarrow> Inl e
           | Inr pairs \<Rightarrow> Inr (dict pairs)))"

text \<open>
  \<^verbatim>\<open>main\<close> up to its accept loop. \<open>seed\<close> is the answer of the seed when a seed port
  is given. An exception in the recovery or in the bootstrap ends \<^verbatim>\<open>main\<close> before
  anything else is done. The result is the state with which the replication threads
  and the client handlers start; its trace holds the steps of \<^verbatim>\<open>main\<close> in program
  order.
\<close>

definition main :: "log_file \<Rightarrow> seed_answer option \<Rightarrow> exn + node" where
  "main file seed =
     (case restore_from_file file of
        Inl e \<Rightarrow> Inl e
      | Inr kv0 \<Rightarrow>
          (case (case seed of
                   None \<Rightarrow> Inr (kv0, [])
                 | Some answer \<Rightarrow>
                     (case bootstrap_kv answer of
                        Inl e \<Rightarrow> Inl e
                      | Inr m \<Rightarrow> Inr (dict_update kv0 m, [KvUpdate]))) of
             Inl e \<Rightarrow> Inl e
           | Inr (kv1, updated) \<Rightarrow>
               Inr \<lparr>kv = kv1,
                    kv_log = \<lparr>disk = [], buffer = []\<rparr>,
                    replication_log = [],
                    trace =
                      updated @ [OpenLog, GossipNode] @
                      (case seed of None \<Rightarrow> [] | Some _ \<Rightarrow> [GossipSeed]) @
                      [GossipStart,
                       StartThread ''replication-listen-thread'',
                       StartThread ''replication-broadcast-thread'',
                       SockBind, SockListen, SignalHandlers, AcceptLoop]\<rparr>))"

section \<open>Notions used to state the properties\<close>

text \<open>
  A token is a piece that \<^verbatim>\<open>split()\<close> can return: not empty and free of white space.
\<close>

definition token :: "pystr \<Rightarrow> bool" where
  "token t = (t \<noteq> [] \<and> list_all (\<lambda>c. \<not> isspace c) t)"

text \<open>
  The line of the durable log for a committed write, \<^verbatim>\<open>set <key> <value>\<close> and a
  newline, and the text of a log that holds one such line per entry.
\<close>

definition log_line :: "pystr \<times> pystr \<Rightarrow> pystr" where
  "log_line e = ustr ''set '' @ fst e @ ustr '' '' @ snd e @ [LF]"

definition log_text :: "(pystr \<times> pystr) list \<Rightarrow> pystr" where
  "log_text entries = concat (map log_line entries)"

text \<open>A node with an empty store and an empty log that has done nothing yet.\<close>

definition empty_node :: node where
  "empty_node = \<lparr>kv = [], kv_log = \<lparr>disk = [], buffer = []\<rparr>, replication_log = [], trace = []\<rparr>"

text \<open>
  The delivery attempts a queue holds, entry by entry and peer by peer, each with its
  outcome.
\<close>

definition attempts_of ::
    "(pystr \<times> (peer \<times> delivery) list) list \<Rightarrow> ((peer \<times> pystr) \<times> delivery) list" where
  "attempts_of entries =
     concat (map (\<lambda>(data, peers). map (\<lambda>(p, out). ((p, data), out)) peers) entries)"

text \<open>
  An attempt that ends well, and what the broadcaster makes of a list of attempts when
  it has already made the attempts \<open>att\<close>: it goes through the list up to the first
  attempt that fails and raises there.
\<close>

definition delivered :: "(peer \<times> pystr) \<times> delivery \<Rightarrow> bool" where
  "delivered a = (snd a = Delivered)"

definition outcome_of ::
    "(peer \<times> pystr) list \<Rightarrow> ((peer \<times> pystr) \<times> delivery) list \<Rightarrow>
     exn option \<times> (peer \<times> pystr) list" where
  "outcome_of att atts =
     (if list_all delivered atts then (None, att @ map fst atts)
      else (Some OSError, att @ map fst (take (Suc (length (takeWhile delivered atts))) atts)))"

text \<open>The string the listener sends for one entry of the store.\<close>

definition item_text :: "pystr \<times> pystr \<Rightarrow> pystr" where
  "item_text e = ustr ''set '' @ fst e @ ustr '' '' @ snd e"

text \<open>
  A connection on which the strings \<open>xs\<close> arrive, one per read, and every later read
  raises.
\<close>

definition reads_of :: "pystr list \<Rightarrow> nat \<Rightarrow> exn + pystr" where
  "reads_of xs i = (if i < length xs then Inr (xs ! i) else Inl OSError)"

section \<open>Lemmas on decoding, splitting and lines\<close>

lemma isspace_LF: "isspace LF"
  by (simp add: isspace_def LF_def)

lemma isspace_CR: "isspace CR"
  by (simp add: isspace_def CR_def)

lemma isspace_SPACE: "isspace SPACE"
  by (simp add: isspace_def SPACE_def)

lemma ustr_set: "ustr ''set '' = ustr ''set'' @ [SPACE]"
  by (simp add: ustr_def SPACE_def)

lemma ustr_get: "ustr ''get '' = ustr ''get'' @ [SPACE]"
  by (simp add: ustr_def SPACE_def)

lemma ustr_space: "ustr '' '' = [SPACE]"
  by (simp add: ustr_def SPACE_def)

lemma token_set: "token (ustr ''set'')"
  by (simp add: token_def isspace_def ustr_def)

lemma token_no_space: "token t \<Longrightarrow> c \<in> set t \<Longrightarrow> \<not> isspace c"
  by (simp add: token_def list_all_iff)

lemma universal_newlines_id: "CR \<notin> set s \<Longrightarrow> universal_newlines s = s"
  by (induction s rule: universal_newlines.induct) auto

lemma readlines_line: "LF \<notin> set l \<Longrightarrow> readlines (l @ LF # rest) = (l @ [LF]) # readlines rest"
  by (induction l) auto

lemma split_ws_Nil: "split_ws [] = []"
  by (simp add: split_ws.simps)

lemma split_ws_space: "isspace c \<Longrightarrow> split_ws (c # s) = split_ws s"
  by (simp add: split_ws.simps [of "c # s"] split_ws.simps [of s])

lemma split_ws_token:
  assumes "token t" and "rest = [] \<or> isspace (hd rest)"
  shows "split_ws (t @ rest) = t # split_ws rest"
proof -
  from assms(1) obtain c cs where t: "t = c # cs" and c: "\<not> isspace c"
    and cs: "\<forall>x\<in>set cs. \<not> isspace x"
    by (cases t) (auto simp: token_def list_all_iff)
  have tw: "takeWhile (\<lambda>c. \<not> isspace c) (t @ rest) = t"
    using assms(2) t c cs by (cases rest) (auto simp: takeWhile_append2 takeWhile_eq_all_conv)
  have dw: "dropWhile (\<lambda>c. \<not> isspace c) (t @ rest) = rest"
    using assms(2) t c cs by (cases rest) (auto simp: dropWhile_append2)
  have d0: "dropWhile isspace (t @ rest) = t @ rest"
    using t c by simp
  have ne: "t @ rest \<noteq> []"
    using t by simp
  show ?thesis
    by (subst split_ws.simps) (simp only: d0 tw dw Let_def ne if_False)
qed

lemma rstrip_line: "token v \<Longrightarrow> rstrip (s @ v @ [LF]) = s @ v"
  by (cases v rule: rev_cases) (auto simp: rstrip_def isspace_LF token_def)

lemma split_ws_item:
  assumes "token k" and "token v"
  shows "split_ws (item_text (k, v)) = [ustr ''set'', k, v]"
proof -
  have "split_ws (ustr ''set'' @ SPACE # k @ SPACE # v) =
      ustr ''set'' # split_ws (SPACE # k @ SPACE # v)"
    by (rule split_ws_token) (simp_all add: token_set isspace_SPACE)
  moreover have "split_ws (k @ SPACE # v) = k # split_ws (SPACE # v)"
    by (rule split_ws_token) (simp_all add: assms isspace_SPACE)
  moreover have "split_ws (v @ []) = v # split_ws []"
    by (rule split_ws_token) (simp_all add: assms)
  ultimately show ?thesis
    by (simp add: item_text_def ustr_set ustr_space split_ws_space isspace_SPACE split_ws_Nil)
qed

lemma parse_log_line:
  assumes "token k" and "token v"
  shows "split_ws (rstrip (log_line (k, v))) = [ustr ''set'', k, v]"
proof -
  have "rstrip (log_line (k, v)) = item_text (k, v)"
    using rstrip_line [OF assms(2), of "ustr ''set '' @ k @ ustr '' ''"]
    by (simp add: log_line_def item_text_def)
  then show ?thesis
    by (simp add: split_ws_item assms)
qed

lemma restore_lines_log:
  "list_all (\<lambda>e. token (fst e) \<and> token (snd e)) entries \<Longrightarrow>
   restore_lines (map log_line entries) st = Inr (dict_update st entries)"
proof (induction entries arbitrary: st)
  case Nil
  then show ?case by (simp add: dict_update_def)
next
  case (Cons e entries)
  obtain k v where e: "e = (k, v)" by (cases e)
  with Cons.prems have "split_ws (rstrip (log_line e)) = [ustr ''set'', k, v]"
    by (simp add: parse_log_line)
  with Cons e show ?case
    by (simp add: dict_update_def)
qed

lemma token_no_LF: "token t \<Longrightarrow> LF \<notin> set t"
  using isspace_LF token_no_space by blast

lemma token_no_CR: "token t \<Longrightarrow> CR \<notin> set t"
  using isspace_CR token_no_space by blast

lemma LF_notin_set: "LF \<notin> set (ustr ''set '')" "LF \<notin> set (ustr '' '')"
  by (simp_all add: ustr_def LF_def)

lemma CR_notin_set: "CR \<notin> set (ustr ''set '')" "CR \<notin> set (ustr '' '')"
  by (simp_all add: ustr_def CR_def)

lemma readlines_log_text:
  "list_all (\<lambda>e. token (fst e) \<and> token (snd e)) entries \<Longrightarrow>
   readlines (log_text entries) = map log_line entries"
proof (induction entries)
  case Nil
  then show ?case by (simp add: log_text_def)
next
  case (Cons e entries)
  then have "LF \<notin> set (ustr ''set '' @ fst e @ ustr '' '' @ snd e)"
    by (auto simp: LF_notin_set dest: token_no_LF)
  then have "readlines ((ustr ''set '' @ fst e @ ustr '' '' @ snd e) @ LF # log_text entries) =
      ((ustr ''set '' @ fst e @ ustr '' '' @ snd e) @ [LF]) # readlines (log_text entries)"
    by (rule readlines_line)
  with Cons show ?case
    by (simp add: log_text_def log_line_def)
qed

lemma CR_notin_log_text:
  "list_all (\<lambda>e. token (fst e) \<and> token (snd e)) entries \<Longrightarrow>
   CR \<notin> set (log_text entries)"
proof (induction entries)
  case Nil
  then show ?case by (simp add: log_text_def)
next
  case (Cons e entries)
  have "CR \<noteq> LF" by (simp add: CR_def LF_def)
  with Cons show ?case
    by (auto simp: log_text_def log_line_def CR_notin_set dest: token_no_CR)
qed

lemma map_of_dict_update: "map_of (dict_update st es) = map_of st ++ map_of (rev es)"
proof (induction es arbitrary: st)
  case Nil
  then show ?case by (simp add: dict_update_def)
next
  case (Cons e es)
  obtain k v where e: "e = (k, v)" by (cases e)
  have "map_of (dict_update st (e # es)) = map_of (dict_update (setitem k v st) es)"
    by (simp add: dict_update_def e)
  also have "\<dots> = map_of (setitem k v st) ++ map_of (rev es)"
    by (rule Cons.IH)
  also have "\<dots> = map_of st ++ map_of (rev (e # es))"
    by (simp add: setitem_def update_conv' e map_add_upd_left)
  finally show ?case .
qed

lemma map_of_setitem: "map_of (setitem k v st) = (map_of st)(k \<mapsto> v)"
  by (simp add: setitem_def update_conv')

lemma map_of_rev_distinct: "distinct (map fst xs) \<Longrightarrow> map_of (rev xs) = map_of xs"
  by (subst map_of_inject_set) (simp_all add: rev_map [symmetric])

lemma distinct_dict_update:
  "distinct (map fst st) \<Longrightarrow> distinct (map fst (dict_update st es))"
proof (induction es arbitrary: st)
  case Nil
  then show ?case by (simp add: dict_update_def)
next
  case (Cons e es)
  obtain k v where e: "e = (k, v)" by (cases e)
  have "distinct (map fst (setitem k v st))"
    using Cons.prems by (simp add: setitem_def distinct_update)
  from Cons.IH [OF this] show ?case
    by (simp add: dict_update_def e)
qed

lemma map_of_dict:
  "distinct (map fst items) \<Longrightarrow> map_of (rev (dict items)) = map_of items"
proof -
  assume d: "distinct (map fst items)"
  have "distinct (map fst (dict items))"
    unfolding dict_def by (rule distinct_dict_update) simp
  then have "map_of (rev (dict items)) = map_of (dict items)"
    by (rule map_of_rev_distinct)
  also have "\<dots> = map_of (rev items)"
    by (simp add: dict_def map_of_dict_update)
  also have "\<dots> = map_of items"
    using d by (rule map_of_rev_distinct)
  finally show ?thesis .
qed

text \<open>Recovery succeeds exactly on lines of three pieces, and raises nothing else.\<close>

lemma restore_lines_ok:
  "(\<exists>st'. restore_lines ls st = Inr st') =
   list_all (\<lambda>l. length (split_ws (rstrip l)) = 3) ls"
proof (induction ls arbitrary: st)
  case Nil
  then show ?case by simp
next
  case (Cons l ls)
  show ?case
  proof (cases "length (split_ws (rstrip l)) = 3")
    case True
    then obtain a k v where "split_ws (rstrip l) = [a, k, v]"
      by (auto simp: length_Suc_conv numeral_3_eq_3)
    with Cons True show ?thesis by simp
  next
    case False
    then have "restore_lines (l # ls) st = Inl ValueError"
      by (auto split: list.splits)
    with False show ?thesis by simp
  qed
qed

lemma restore_lines_error: "restore_lines ls st = Inl e \<Longrightarrow> e = ValueError"
  by (induction ls arbitrary: st) (auto split: list.splits)

text \<open>
  Recovery, case by case: the handler of the \<^verbatim>\<open>try\<close> block matters for a missing
  file only.
\<close>

lemma restore_from_file_cases:
  "restore_from_file Missing = Inr []"
  "restore_from_file Unreadable = Inl OSError"
  "decode b = None \<Longrightarrow> restore_from_file (Bytes b) = Inl UnicodeDecodeError"
  "decode b = Some t \<Longrightarrow>
   restore_from_file (Bytes b) = restore_lines (readlines (universal_newlines t)) []"
proof -
  show "restore_from_file Missing = Inr []"
    by (simp add: restore_from_file_def open_kv_log_def)
  show "restore_from_file Unreadable = Inl OSError"
    by (simp add: restore_from_file_def open_kv_log_def)
  show "decode b = None \<Longrightarrow> restore_from_file (Bytes b) = Inl UnicodeDecodeError"
    by (simp add: restore_from_file_def open_kv_log_def)
  show "restore_from_file (Bytes b) = restore_lines (readlines (universal_newlines t)) []"
    if "decode b = Some t"
  proof (cases "restore_lines (readlines (universal_newlines t)) []")
    case (Inl e)
    then have "e = ValueError" by (rule restore_lines_error)
    with Inl that show ?thesis
      by (simp add: restore_from_file_def open_kv_log_def)
  next
    case (Inr st)
    with that show ?thesis
      by (simp add: restore_from_file_def open_kv_log_def)
  qed
qed

text \<open>
  The store stays a dict: recovery, the start of the node and both handlers keep one
  pair per key.
\<close>

lemma distinct_setitem: "distinct (map fst st) \<Longrightarrow> distinct (map fst (setitem k v st))"
  by (simp add: setitem_def distinct_update)

lemma distinct_restore_lines:
  "distinct (map fst st) \<Longrightarrow> restore_lines ls st = Inr st' \<Longrightarrow> distinct (map fst st')"
proof (induction ls arbitrary: st)
  case Nil
  then show ?case by simp
next
  case (Cons l ls)
  then show ?case
    by (auto split: list.splits dest: distinct_setitem)
qed

lemma distinct_restore_from_file:
  "restore_from_file f = Inr st \<Longrightarrow> distinct (map fst st)"
proof (cases f)
  case Missing
  then show "restore_from_file f = Inr st \<Longrightarrow> distinct (map fst st)"
    by (auto simp: restore_from_file_cases)
next
  case Unreadable
  then show "restore_from_file f = Inr st \<Longrightarrow> distinct (map fst st)"
    by (auto simp: restore_from_file_cases)
next
  case (Bytes b)
  then show "restore_from_file f = Inr st \<Longrightarrow> distinct (map fst st)"
    by (cases "decode b") (auto simp: restore_from_file_cases dest: distinct_restore_lines [rotated])
qed

lemma distinct_handle_command:
  "distinct (map fst (kv n)) \<Longrightarrow> handle_command fr n = Inr n' \<Longrightarrow>
   distinct (map fst (kv n'))"
  by (auto simp: handle_command_def Let_def queue_put_def log_flush_def log_write_def
      send_str_def distinct_setitem split: if_splits list.splits sum.splits option.splits)

lemma kv_send_items: "kv (send_items cmd items n) = kv n"
  by (induction items arbitrary: n)
    (auto simp: Let_def send_str_def log_write_def log_flush_def)

lemma distinct_replication_handle:
  "distinct (map fst (kv n)) \<Longrightarrow> replication_handle fr n = Inr n' \<Longrightarrow>
   distinct (map fst (kv n'))"
  by (auto simp: replication_handle_def Let_def kv_send_items send_uint32_def distinct_setitem
      split: if_splits list.splits sum.splits option.splits)

lemma distinct_main: "main f seed = Inr n \<Longrightarrow> distinct (map fst (kv n))"
  by (auto simp: main_def distinct_dict_update split: sum.splits option.splits prod.splits
      dest!: distinct_restore_from_file)

text \<open>Splitting at single spaces.\<close>

lemma split_on_nonempty: "split_on sep s \<noteq> []"
  by (induction s) (auto split: list.splits)

lemma split_on_whole: "sep \<notin> set a \<Longrightarrow> split_on sep a = [a]"
  by (induction a) auto

lemma split_on_first: "sep \<notin> set a \<Longrightarrow> split_on sep (a @ sep # b) = a # split_on sep b"
  by (induction a) auto

lemma length_split_on: "length (split_on sep s) = Suc (count_list s sep)"
  by (induction s) (auto split: list.splits simp: split_on_nonempty)

lemma split_on_two:
  assumes "split_on sep (a @ sep # b) = [x, y]"
  shows "x = a \<and> y = b \<and> sep \<notin> set a \<and> sep \<notin> set b"
proof -
  have "length (split_on sep (a @ sep # b)) = 2"
    by (simp add: assms)
  then have "count_list a sep = 0" and "count_list b sep = 0"
    by (simp_all add: length_split_on)
  then have a: "sep \<notin> set a" and b: "sep \<notin> set b"
    by (simp_all add: count_list_0_iff)
  then have "split_on sep (a @ sep # b) = [a, b]"
    by (simp add: split_on_first split_on_whole)
  with assms a b show ?thesis by simp
qed

lemma split_set_cmd: "split_on SPACE (ustr ''set '' @ r) = ustr ''set'' # split_on SPACE r"
  using split_on_first [of SPACE "ustr ''set''" r] by (simp add: ustr_def SPACE_def)

lemma split_get_cmd: "split_on SPACE (ustr ''get '' @ r) = ustr ''get'' # split_on SPACE r"
  using split_on_first [of SPACE "ustr ''get''" r] by (simp add: ustr_def SPACE_def)

text \<open>What a handler has sent.\<close>

lemma sent_strings_append: "sent_strings (es @ es') = sent_strings es @ sent_strings es'"
  by (induction es rule: sent_strings.induct) simp_all

lemma sent_send_items:
  "sent_strings (trace (send_items cmd items n)) = sent_strings (trace n) @ map item_text items"
  by (induction items arbitrary: n)
    (auto simp: Let_def send_str_def log_write_def log_flush_def sent_strings_append item_text_def)

text \<open>Reading the answer of the seed.\<close>

lemma read_kv_item: "token k \<Longrightarrow> token v \<Longrightarrow> read_kv (Inr (item_text (k, v))) = Inr (k, v)"
  by (simp add: read_kv_def split_ws_item)

lemma read_kvs_items:
  "list_all (\<lambda>e. token (fst e) \<and> token (snd e)) items \<Longrightarrow>
   (\<forall>j < length items. reads (i + j) = Inr (item_text (items ! j))) \<Longrightarrow>
   read_kvs reads i (length items) = Inr items"
proof (induction items arbitrary: i)
  case Nil
  then show ?case by simp
next
  case (Cons e items)
  obtain k v where e: "e = (k, v)" by (cases e)
  from Cons.prems(2) have "reads (i + 0) = Inr (item_text ((e # items) ! 0))"
    by blast
  with Cons.prems(1) e have first: "read_kv (reads i) = Inr e"
    by (simp add: read_kv_item)
  have "\<forall>j < length items. reads (Suc i + j) = Inr (item_text (items ! j))"
  proof (intro allI impI)
    fix j
    assume "j < length items"
    then have "reads (i + Suc j) = Inr (item_text ((e # items) ! Suc j))"
      using Cons.prems(2) by (metis Suc_less_eq length_Cons)
    then show "reads (Suc i + j) = Inr (item_text (items ! j))"
      by simp
  qed
  with Cons.IH [of "Suc i"] Cons.prems(1) have "read_kvs reads (Suc i) (length items) = Inr items"
    by simp
  with first show ?case by simp
qed

text \<open>The broadcaster goes through the attempts up to the first failure.\<close>

lemma outcome_of_Nil: "outcome_of att [] = (None, att)"
  by (simp add: outcome_of_def)

lemma outcome_of_Cons:
  "outcome_of att (a # atts) =
     (if delivered a then outcome_of (att @ [fst a]) atts else (Some OSError, att @ [fst a]))"
  by (simp add: outcome_of_def)

lemma outcome_of_append:
  "outcome_of att (xs @ ys) =
     (case outcome_of att xs of
        (Some e, att') \<Rightarrow> (Some e, att')
      | (None, att') \<Rightarrow> outcome_of att' ys)"
proof (induction xs arbitrary: att)
  case Nil
  then show ?case by (simp add: outcome_of_Nil)
next
  case (Cons a xs)
  then show ?case by (simp add: outcome_of_Cons)
qed

lemma broadcast_outcome:
  "broadcast data peers att = outcome_of att (map (\<lambda>(p, out). ((p, data), out)) peers)"
proof (induction peers arbitrary: att)
  case Nil
  then show ?case by (simp add: outcome_of_Nil)
next
  case (Cons a peers)
  obtain p out where a: "a = (p, out)" by (cases a)
  show ?case
    using Cons a by (cases out) (simp_all add: outcome_of_Cons delivered_def)
qed

lemma broadcast_loop_outcome:
  "replication_broadcast_loop entries att = outcome_of att (attempts_of entries)"
proof (induction entries arbitrary: att)
  case Nil
  then show ?case by (simp add: attempts_of_def outcome_of_Nil)
next
  case (Cons e entries)
  obtain data peers where e: "e = (data, peers)" by (cases e)
  have "attempts_of (e # entries) =
      map (\<lambda>(p, out). ((p, data), out)) peers @ attempts_of entries"
    by (simp add: attempts_of_def e)
  then show ?case
    using Cons.IH
    by (simp add: e outcome_of_append broadcast_outcome split: prod.splits option.splits)
qed

section \<open>The client handler\<close>

text \<open>
  An accepted \<^verbatim>\<open>set\<close> command changes the store, answers \<^verbatim>\<open>OK\<close>, writes the
  command and a newline to the log, flushes the log and puts the command on the
  replication queue, in this order.
\<close>

lemma accepted_set_effects:
  assumes "decode b = Some data" and "startswith data (ustr ''set '')"
    and "handle_command (Inr b) n = Inr n'"
  shows "trace n' = trace n @ [SendStr (Some (ustr ''OK'')), LogWrite data, LogWrite [LF],
           LogFlush, QueuePut data] \<and>
         disk (kv_log n') = disk (kv_log n) @ buffer (kv_log n) @ data @ [LF] \<and>
         replication_log n' = replication_log n @ [data]"
  using assms
  by (auto simp: handle_command_def Let_def queue_put_def log_flush_def log_write_def
      send_str_def textio_write_def textio_flush_def split: list.splits)

text \<open>
  Claim C2 (the entry is appended to the log and flushed before \<^verbatim>\<open>OK\<close> is sent):
  the code sends \<^verbatim>\<open>OK\<close> first. For the command \<^verbatim>\<open>set a 1\<close> on a node with an
  empty store and an empty log, the acknowledgment is the first thing the handler does
  to the outside; the two writes to the log and the flush follow it.
\<close>

theorem ok_sent_before_log_append:
  "handle_client [Inr ''set a 1''] empty_node =
     (None, \<lparr>kv = [(ustr ''a'', ustr ''1'')],
             kv_log = \<lparr>disk = ustr ''set a 1'' @ [LF], buffer = []\<rparr>,
             replication_log = [ustr ''set a 1''],
             trace = [SendStr (Some (ustr ''OK'')), LogWrite (ustr ''set a 1''), LogWrite [LF],
                      LogFlush, QueuePut (ustr ''set a 1'')]\<rparr>)"
  by code_simp

text \<open>
  Claim C5 (a command with the wrong number of pieces is treated as unknown input and
  raises nothing): the code raises. \<^verbatim>\<open>set a\<close>, \<^verbatim>\<open>set a b c\<close> and \<^verbatim>\<open>get a b\<close>
  each end the handler loop with \<^verbatim>\<open>ValueError\<close>: no answer is sent, the error marker
  neither, and the commands that follow on the connection are not read. An input that
  starts with neither word gets the marker, and the loop goes on.
\<close>

theorem wrong_token_count_raises:
  "handle_client [Inr ''set a'', Inr ''get a''] empty_node = (Some ValueError, empty_node) \<and>
   handle_client [Inr ''set a b c''] empty_node = (Some ValueError, empty_node) \<and>
   handle_client [Inr ''get a b''] empty_node = (Some ValueError, empty_node) \<and>
   handle_client [Inr ''foo'', Inr ''get a''] empty_node =
     (None, empty_node\<lparr>trace := [SendStr (Some error_marker), SendStr None]\<rparr>)"
  by code_simp

text \<open>
  Claim C8. For all keys \<open>k\<close> and values \<open>v\<close>: when the message that holds the
  command \<^verbatim>\<open>set k v\<close> is accepted, it is answered with \<^verbatim>\<open>OK\<close>, and the message
  that holds the command \<^verbatim>\<open>get k\<close>, handled on the state it leaves, is answered with
  \<open>v\<close>. A message holds a command when its bytes decode to the text of the command.
\<close>

theorem read_after_write:
  assumes "decode b1 = Some (ustr ''set '' @ k @ ustr '' '' @ v)"
    and "handle_command (Inr b1) n = Inr n'"
    and "decode b2 = Some (ustr ''get '' @ k)"
  shows "sent_strings (trace n') = sent_strings (trace n) @ [ustr ''OK''] \<and>
         handle_command (Inr b2) n' = Inr (send_str (Some v) n')"
proof -
  let ?data = "ustr ''set '' @ k @ ustr '' '' @ v"
  have sw: "startswith ?data (ustr ''set '')"
    by (simp add: startswith_def)
  have sp: "split_on SPACE ?data = ustr ''set'' # split_on SPACE (k @ SPACE # v)"
    using split_set_cmd [of "k @ ustr '' '' @ v"] by (simp add: ustr_space)
  from assms(1,2) sw sp obtain key val where
    pieces: "split_on SPACE (k @ SPACE # v) = [key, val]"
    by (auto simp: handle_command_def split: list.splits)
  from split_on_two [OF pieces]
  have key: "key = k" and val: "val = v" and nk: "SPACE \<notin> set k"
    by simp_all
  from assms(1,2) sw sp pieces key val
  have n': "n' = queue_put ?data (log_flush (log_write [LF] (log_write ?data
      (send_str (Some (ustr ''OK'')) (n\<lparr>kv := setitem k v (kv n)\<rparr>)))))"
    by (simp add: handle_command_def Let_def)
  have store: "kv n' = setitem k v (kv n)"
    by (simp add: n' queue_put_def log_flush_def log_write_def send_str_def)
  have tr: "trace n' = trace n @
      [SendStr (Some (ustr ''OK'')), LogWrite ?data, LogWrite [LF], LogFlush, QueuePut ?data]"
    by (simp add: n' queue_put_def log_flush_def log_write_def send_str_def)
  have g1: "\<not> startswith (ustr ''get '' @ k) (ustr ''set '')"
    by (simp add: startswith_def ustr_def)
  have g2: "startswith (ustr ''get '' @ k) (ustr ''get '')"
    by (simp add: startswith_def)
  have g3: "split_on SPACE (ustr ''get '' @ k) = [ustr ''get'', k]"
    using split_get_cmd [of k] nk by (simp add: split_on_whole)
  have "handle_command (Inr b2) n' = Inr (send_str (get (kv n') k) n')"
    using assms(3) g1 g2 g3 by (simp add: handle_command_def)
  moreover have "get (kv n') k = Some v"
    by (simp add: store get_def map_of_setitem)
  ultimately show ?thesis
    by (simp add: tr sent_strings_append)
qed

text \<open>\<^verbatim>\<open>set a 1\<close> and then \<^verbatim>\<open>get a\<close>, on a node with an empty store.\<close>

theorem read_after_write_witness:
  "decode ''set a 1'' = Some (ustr ''set '' @ ustr ''a'' @ ustr '' '' @ ustr ''1'') \<and>
   decode ''get a'' = Some (ustr ''get '' @ ustr ''a'') \<and>
   (\<exists>n'. handle_command (Inr ''set a 1'') empty_node = Inr n' \<and>
      sent_strings (trace n') = [ustr ''OK''] \<and>
      handle_command (Inr ''get a'') n' = Inr (send_str (Some (ustr ''1'')) n'))"
proof -
  have h1: "decode ''set a 1'' = Some (ustr ''set '' @ ustr ''a'' @ ustr '' '' @ ustr ''1'')"
    by code_simp
  have h3: "decode ''get a'' = Some (ustr ''get '' @ ustr ''a'')"
    by code_simp
  have "handle_command (Inr ''set a 1'') empty_node =
      Inr \<lparr>kv = [(ustr ''a'', ustr ''1'')],
           kv_log = \<lparr>disk = ustr ''set a 1'' @ [LF], buffer = []\<rparr>,
           replication_log = [ustr ''set a 1''],
           trace = [SendStr (Some (ustr ''OK'')), LogWrite (ustr ''set a 1''), LogWrite [LF],
                    LogFlush, QueuePut (ustr ''set a 1'')]\<rparr>"
    by code_simp
  then obtain n' where h2: "handle_command (Inr ''set a 1'') empty_node = Inr n'"
    by blast
  from read_after_write [OF h1 h2 h3] h1 h2 h3 show ?thesis
    by (simp add: empty_node_def)
qed

text \<open>
  Claim C9, as amended. For every client input that is valid UTF-8 and whose text
  begins with neither \<^verbatim>\<open>set \<close> nor \<^verbatim>\<open>get \<close>, the handler sends the error marker
  and nothing else, leaves the store, the log and the replication queue as they are,
  and goes on with the next command.
\<close>

theorem unknown_command:
  assumes "decode b = Some data"
    and "\<not> startswith data (ustr ''set '')" and "\<not> startswith data (ustr ''get '')"
  shows "\<exists>n'. handle_command (Inr b) n = Inr n' \<and>
           handle_client (Inr b # rest) n = handle_client rest n' \<and>
           trace n' = trace n @ [SendStr (Some error_marker)] \<and>
           kv n' = kv n \<and> kv_log n' = kv_log n \<and> replication_log n' = replication_log n"
  using assms by (simp add: handle_command_def send_str_def)

text \<open>The input \<^verbatim>\<open>delete a\<close>.\<close>

theorem unknown_command_witness:
  "decode ''delete a'' = Some (ustr ''delete a'') \<and>
   \<not> startswith (ustr ''delete a'') (ustr ''set '') \<and>
   \<not> startswith (ustr ''delete a'') (ustr ''get '') \<and>
   (\<exists>n'. handle_command (Inr ''delete a'') empty_node = Inr n' \<and>
      handle_client [Inr ''delete a''] empty_node = (None, n') \<and>
      trace n' = [SendStr (Some error_marker)] \<and>
      kv n' = [] \<and> kv_log n' = \<lparr>disk = [], buffer = []\<rparr> \<and> replication_log n' = [])"
proof -
  have h0: "decode ''delete a'' = Some (ustr ''delete a'')"
    by code_simp
  have h1: "\<not> startswith (ustr ''delete a'') (ustr ''set '')"
    and h2: "\<not> startswith (ustr ''delete a'') (ustr ''get '')"
    by (simp_all add: startswith_def ustr_def)
  from unknown_command [OF h0 h1 h2, where n = empty_node and rest = "[]"] h0 h1 h2
  show ?thesis
    by (simp add: empty_node_def)
qed

text \<open>
  Claim C9 as stated fails for an input that is not valid UTF-8: the two bytes 0xFF
  0xFE begin with neither \<^verbatim>\<open>set \<close> nor \<^verbatim>\<open>get \<close>, and \<^verbatim>\<open>decode\<close> raises
  \<^verbatim>\<open>UnicodeDecodeError\<close> before any branch is taken. The loop ends; no marker is sent,
  and the command that follows on the connection is not read.
\<close>

theorem undecodable_input_counterexample:
  "\<not> prefix ''set '' [CHR 0xFF, CHR 0xFE] \<and> \<not> prefix ''get '' [CHR 0xFF, CHR 0xFE] \<and>
   decode [CHR 0xFF, CHR 0xFE] = None \<and>
   handle_client [Inr [CHR 0xFF, CHR 0xFE], Inr ''get a''] empty_node =
     (Some UnicodeDecodeError, empty_node)"
  by code_simp

section \<open>The broadcaster\<close>

text \<open>
  Claim C3, as amended. The broadcaster attempts the deliveries entry by entry and,
  within an entry, peer by peer, as long as every attempt succeeds: when none fails,
  every peer of every entry is attempted and the loop waits for the next entry. The
  first attempt that fails, at the connect or at the send, raises: the loop ends with
  the error, and no later peer and no later entry is attempted.
\<close>

theorem broadcast_stops_at_first_failure:
  "replication_broadcast_loop entries [] =
     (let atts = attempts_of entries
      in if list_all delivered atts then (None, map fst atts)
         else (Some OSError, map fst (take (Suc (length (takeWhile delivered atts))) atts)))"
  by (simp add: broadcast_loop_outcome outcome_of_def Let_def)

text \<open>
  Claim C3 as stated fails: the queue holds \<^verbatim>\<open>set a 1\<close> and \<^verbatim>\<open>set b 2\<close>, the
  first peer of the first entry cannot be connected to. The loop ends with the error;
  the second peer never gets \<^verbatim>\<open>set a 1\<close>, and \<^verbatim>\<open>set b 2\<close> is sent to nobody.
\<close>

theorem failed_peer_ends_broadcast_counterexample:
  "replication_broadcast_loop
     [(ustr ''set a 1'',
       [((''10.0.0.1'', 7001), ConnectFails), ((''10.0.0.2'', 7002), Delivered)]),
      (ustr ''set b 2'', [((''10.0.0.2'', 7002), Delivered)])] [] =
   (Some OSError, [((''10.0.0.1'', 7001), ustr ''set a 1'')])"
  by code_simp

section \<open>The listener\<close>

text \<open>A message that is not a bootstrap request leaves the log as it is.\<close>

lemma propagated_write_not_logged:
  assumes "decode b = Some cmd" and "\<not> is_bootstrap cmd"
    and "replication_handle (Inr b) n = Inr n'"
  shows "kv_log n' = kv_log n \<and> trace n' = trace n"
  using assms
  by (auto simp: replication_handle_def Let_def split: if_splits list.splits)

text \<open>
  A connection whose message cannot be read, or whose bytes are not valid UTF-8, ends
  the listener loop.
\<close>

lemma listener_raises_on_bad_read:
  "replication_listen_loop (Inl e # rest) n = (Some e, n)"
  "decode b = None \<Longrightarrow> replication_listen_loop (Inr b # rest) n = (Some UnicodeDecodeError, n)"
  by (simp_all add: replication_handle_def)

text \<open>
  Claim C1 (the lines appended while a bootstrap request is served are the entries of
  the answer, in the format \<^verbatim>\<open>set <key> <value>\<close>): the code writes the text of the
  request instead, once per entry. For the request \<^verbatim>\<open>bootstrap\<close> on a store that
  maps \<^verbatim>\<open>a\<close> to \<^verbatim>\<open>1\<close>, the entry \<^verbatim>\<open>set a 1\<close> is sent, and the line appended to
  the log is \<^verbatim>\<open>bootstrap\<close>, which is not the line of the entry; recovery from a log
  with this line raises \<^verbatim>\<open>ValueError\<close>.
\<close>

theorem bootstrap_logs_request_text:
  "replication_handle (Inr ''bootstrap'') (empty_node\<lparr>kv := [(ustr ''a'', ustr ''1'')]\<rparr>) =
     Inr \<lparr>kv = [(ustr ''a'', ustr ''1'')],
          kv_log = \<lparr>disk = ustr ''bootstrap'' @ [LF], buffer = []\<rparr>,
          replication_log = [],
          trace = [SendUInt32 1, SendStr (Some (ustr ''set a 1'')), LogWrite (ustr ''bootstrap''),
                   LogWrite [LF], LogFlush]\<rparr> \<and>
   ustr ''bootstrap'' @ [LF] \<noteq> log_line (ustr ''a'', ustr ''1'') \<and>
   decode (''bootstrap'' @ [CHR 0x0A]) = Some (ustr ''bootstrap'' @ [LF]) \<and>
   restore_from_file (Bytes (''bootstrap'' @ [CHR 0x0A])) = Inl ValueError"
  by code_simp

text \<open>
  Claim C4, as amended. For every inbound message that is read, is valid UTF-8 and is
  neither a bootstrap request nor a \<^verbatim>\<open>set\<close> command of three pieces: when its text
  does not start with \<^verbatim>\<open>set \<close>, the listener ignores it, the state of the node stays
  as it is and the loop goes on with the next connection; when it starts with
  \<^verbatim>\<open>set \<close>, the assertion on the number of pieces fails: the state stays as it is,
  and the \<^verbatim>\<open>AssertionError\<close> ends the listener loop.
\<close>

theorem listener_ignores_or_asserts:
  assumes "decode b = Some cmd"
    and "\<not> is_bootstrap cmd"
    and "\<not> (startswith cmd (ustr ''set '') \<and> length (split_on SPACE cmd) = 3)"
  shows "replication_listen_loop (Inr b # rest) n =
           (if startswith cmd (ustr ''set '') then (Some AssertionError, n)
            else replication_listen_loop rest n)"
  using assms by (simp add: replication_handle_def Let_def)

text \<open>The message \<^verbatim>\<open>ping\<close>, followed by a connection that brings \<^verbatim>\<open>set a 1\<close>.\<close>

theorem listener_ignores_or_asserts_witness:
  "decode ''ping'' = Some (ustr ''ping'') \<and>
   \<not> is_bootstrap (ustr ''ping'') \<and>
   \<not> (startswith (ustr ''ping'') (ustr ''set '') \<and> length (split_on SPACE (ustr ''ping'')) = 3) \<and>
   replication_listen_loop [Inr ''ping'', Inr ''set a 1''] empty_node =
     (None, empty_node\<lparr>kv := [(ustr ''a'', ustr ''1'')]\<rparr>)"
proof -
  have h0: "decode ''ping'' = Some (ustr ''ping'')"
    by code_simp
  have h1: "\<not> is_bootstrap (ustr ''ping'')"
    by code_simp
  have h2: "\<not> (startswith (ustr ''ping'') (ustr ''set '') \<and>
      length (split_on SPACE (ustr ''ping'')) = 3)"
    by (simp add: startswith_def ustr_def)
  have h3: "\<not> startswith (ustr ''ping'') (ustr ''set '')"
    by (simp add: startswith_def ustr_def)
  have "replication_listen_loop [Inr ''set a 1''] empty_node =
      (None, empty_node\<lparr>kv := [(ustr ''a'', ustr ''1'')]\<rparr>)"
    by code_simp
  with listener_ignores_or_asserts [OF h0 h1 h2, of "[Inr ''set a 1'']" empty_node] h0 h1 h2 h3
  show ?thesis by simp
qed

text \<open>
  Claim C4 as stated fails for the message \<^verbatim>\<open>set a\<close>: it is not a bootstrap
  request, it has two pieces, and it raises \<^verbatim>\<open>AssertionError\<close>. The loop ends; the
  write \<^verbatim>\<open>set b 2\<close> of the next connection is never applied. It fails as well for
  the byte 0xFF, which is not valid UTF-8: \<^verbatim>\<open>decode\<close> raises \<^verbatim>\<open>UnicodeDecodeError\<close>,
  and the loop ends.
\<close>

theorem short_set_ends_listener_counterexample:
  "decode ''set a'' = Some (ustr ''set a'') \<and>
   \<not> is_bootstrap (ustr ''set a'') \<and>
   replication_handle (Inr ''set a'') empty_node = Inl AssertionError \<and>
   replication_listen_loop [Inr ''set a'', Inr ''set b 2''] empty_node =
     (Some AssertionError, empty_node) \<and>
   replication_listen_loop [Inr [CHR 0xFF], Inr ''set b 2''] empty_node =
     (Some UnicodeDecodeError, empty_node)"
  by code_simp

section \<open>Recovery from the durable log\<close>

text \<open>
  A log that holds one line \<^verbatim>\<open>set <key> <value>\<close> per entry, with keys and values
  that are tokens, is replayed to the store in which each key has the value of its last
  line.
\<close>

lemma restore_last_wins_tokens:
  assumes "decode b = Some (log_text entries)"
    and "list_all (\<lambda>e. token (fst e) \<and> token (snd e)) entries"
  shows "\<exists>st. restore_from_file (Bytes b) = Inr st \<and>
           (\<forall>k. get st k = map_of (rev entries) k)"
proof -
  have "restore_from_file (Bytes b) = Inr (dict_update [] entries)"
    using assms
    by (simp add: restore_from_file_cases universal_newlines_id CR_notin_log_text
        readlines_log_text restore_lines_log)
  then show ?thesis
    by (simp add: get_def map_of_dict_update)
qed

text \<open>
  Claim C7 (replaying a log of lines \<^verbatim>\<open>set <key> <value>\<close> gives each key the value
  of its last line): the code cannot replay every line that it writes. The client
  handler splits at single spaces: it accepts \<^verbatim>\<open>set a b<TAB>c\<close>, stores the value
  \<^verbatim>\<open>b<TAB>c\<close> under the key \<^verbatim>\<open>a\<close>, answers \<^verbatim>\<open>OK\<close> and writes the line to the
  log. Recovery splits at white space, finds four pieces in that line and raises
  \<^verbatim>\<open>ValueError\<close>. The same happens with the empty value of \<^verbatim>\<open>set a \<close>, where
  recovery finds two pieces.
\<close>

theorem restore_fails_on_logged_write:
  "handle_client [Inr (''set a b'' @ [CHR 0x09] @ ''c'')] empty_node =
     (None, \<lparr>kv = [(ustr ''a'', ustr ''b'' @ [TAB] @ ustr ''c'')],
             kv_log = \<lparr>disk = log_text [(ustr ''a'', ustr ''b'' @ [TAB] @ ustr ''c'')],
                       buffer = []\<rparr>,
             replication_log = [ustr ''set a b'' @ [TAB] @ ustr ''c''],
             trace = [SendStr (Some (ustr ''OK'')), LogWrite (ustr ''set a b'' @ [TAB] @ ustr ''c''),
                      LogWrite [LF], LogFlush, QueuePut (ustr ''set a b'' @ [TAB] @ ustr ''c'')]\<rparr>) \<and>
   decode (''set a b'' @ [CHR 0x09] @ ''c'' @ [CHR 0x0A]) =
     Some (log_text [(ustr ''a'', ustr ''b'' @ [TAB] @ ustr ''c'')]) \<and>
   restore_from_file (Bytes (''set a b'' @ [CHR 0x09] @ ''c'' @ [CHR 0x0A])) = Inl ValueError \<and>
   handle_client [Inr ''set a ''] empty_node =
     (None, \<lparr>kv = [(ustr ''a'', [])],
             kv_log = \<lparr>disk = log_text [(ustr ''a'', [])], buffer = []\<rparr>,
             replication_log = [ustr ''set a ''],
             trace = [SendStr (Some (ustr ''OK'')), LogWrite (ustr ''set a ''),
                      LogWrite [LF], LogFlush, QueuePut (ustr ''set a '')]\<rparr>) \<and>
   decode (''set a '' @ [CHR 0x0A]) = Some (log_text [(ustr ''a'', [])]) \<and>
   restore_from_file (Bytes (''set a '' @ [CHR 0x0A])) = Inl ValueError"
  by code_simp

text \<open>
  Claim C10. When the log file does not exist, recovery succeeds with the empty store,
  and \<^verbatim>\<open>main\<close> goes on to its accept loop with an empty store. No other failure is
  tolerated: a file that cannot be opened or read raises \<^verbatim>\<open>OSError\<close>, and the bytes of
  a file are recovered exactly when they are valid UTF-8 and each line of the text has
  three pieces; otherwise recovery raises.
\<close>

theorem missing_log_tolerated:
  "restore_from_file Missing = Inr [] \<and>
   main Missing None =
     Inr (empty_node\<lparr>trace :=
       [OpenLog, GossipNode, GossipStart,
        StartThread ''replication-listen-thread'', StartThread ''replication-broadcast-thread'',
        SockBind, SockListen, SignalHandlers, AcceptLoop]\<rparr>) \<and>
   restore_from_file Unreadable = Inl OSError \<and>
   (\<exists>st. restore_from_file (Bytes b) = Inr st) =
     (\<exists>t. decode b = Some t \<and>
        list_all (\<lambda>l. length (split_ws (rstrip l)) = 3) (readlines (universal_newlines t)))"
proof -
  have "(\<exists>st. restore_from_file (Bytes b) = Inr st) =
     (\<exists>t. decode b = Some t \<and>
        list_all (\<lambda>l. length (split_ws (rstrip l)) = 3) (readlines (universal_newlines t)))"
  proof (cases "decode b")
    case None
    then show ?thesis
      by (simp add: restore_from_file_cases)
  next
    case (Some t)
    then show ?thesis
      by (simp add: restore_from_file_cases restore_lines_ok)
  qed
  then show ?thesis
    by (simp add: restore_from_file_cases main_def empty_node_def)
qed

section \<open>Bootstrap from a seed\<close>

text \<open>
  The steps of \<^verbatim>\<open>main\<close>: the store is updated from the seed before the log is opened,
  the threads are started and the client socket is opened.
\<close>

lemma main_steps:
  assumes "main f seed = Inr n"
  shows "trace n =
     (case seed of None \<Rightarrow> [] | Some _ \<Rightarrow> [KvUpdate]) @ [OpenLog, GossipNode] @
     (case seed of None \<Rightarrow> [] | Some _ \<Rightarrow> [GossipSeed]) @
     [GossipStart, StartThread ''replication-listen-thread'',
      StartThread ''replication-broadcast-thread'',
      SockBind, SockListen, SignalHandlers, AcceptLoop]"
  using assms
  by (auto simp: main_def split: sum.splits option.splits prod.splits)

text \<open>
  What the seed sends for a bootstrap request: the number of entries of its store, then
  one string per entry. A joining node that reads these strings, when they are built
  from tokens, gets the store of the seed: every key of the seed has the value of the
  seed, and every other key keeps its recovered value.
\<close>

lemma read_kvs_reads_of:
  assumes "list_all (\<lambda>e. token (fst e) \<and> token (snd e)) items"
  shows "read_kvs (reads_of (map item_text items)) 0 (length items) = Inr items"
  by (rule read_kvs_items [OF assms]) (simp add: reads_of_def)

lemma trace_send_items:
  "\<exists>es. trace (send_items cmd items m) = trace m @ es \<and> sent_strings es = map item_text items"
proof (induction items arbitrary: m)
  case Nil
  then show ?case by simp
next
  case (Cons e items)
  obtain k v where e: "e = (k, v)" by (cases e)
  define m' where "m' = log_flush (log_write [LF] (log_write cmd
      (send_str (Some (ustr ''set '' @ k @ ustr '' '' @ v)) m)))"
  have step: "send_items cmd (e # items) m = send_items cmd items m'"
    by (simp add: e m'_def Let_def)
  have tm': "trace m' = trace m @
      [SendStr (Some (item_text (k, v))), LogWrite cmd, LogWrite [LF], LogFlush]"
    by (simp add: m'_def send_str_def log_write_def log_flush_def item_text_def)
  from Cons.IH [of m'] obtain es where
    es: "trace (send_items cmd items m') = trace m' @ es"
    and sent: "sent_strings es = map item_text items"
    by blast
  have "trace (send_items cmd (e # items) m) = trace m @
      ([SendStr (Some (item_text (k, v))), LogWrite cmd, LogWrite [LF], LogFlush] @ es)"
    by (simp add: step es tm')
  moreover have "sent_strings
      ([SendStr (Some (item_text (k, v))), LogWrite cmd, LogWrite [LF], LogFlush] @ es) =
      map item_text (e # items)"
    by (simp add: sent e)
  ultimately show ?case by blast
qed

lemma seed_answer:
  assumes "replication_handle (Inr ''bootstrap'') seed = Inr seed'"
  shows "\<exists>es. trace seed' = trace seed @ SendUInt32 (length (kv seed)) # es \<and>
           sent_strings es = map item_text (kv seed)"
proof -
  have d: "decode ''bootstrap'' = Some (ustr ''bootstrap'')"
    by code_simp
  have "is_bootstrap (ustr ''bootstrap'')"
    by code_simp
  with assms d
  have s: "seed' = send_items (ustr ''bootstrap'') (kv seed) (send_uint32 (length (kv seed)) seed)"
    by (simp add: replication_handle_def)
  from trace_send_items [of "ustr ''bootstrap''" "kv seed" "send_uint32 (length (kv seed)) seed"]
  show ?thesis
    by (auto simp: s send_uint32_def)
qed

lemma bootstrap_merges_token_snapshot:
  assumes "distinct (map fst snapshot)"
    and "list_all (\<lambda>e. token (fst e) \<and> token (snd e)) snapshot"
    and "restore_from_file f = Inr local"
  shows "\<exists>n. main f (Some (Inr (length snapshot, reads_of (map item_text snapshot)))) = Inr n \<and>
           (\<forall>(k, v) \<in> set snapshot. get (kv n) k = Some v) \<and>
           (\<forall>k. k \<notin> fst ` set snapshot \<longrightarrow> get (kv n) k = get local k)"
proof -
  have "bootstrap_kv (Inr (length snapshot, reads_of (map item_text snapshot))) = Inr (dict snapshot)"
    using assms(2) by (simp add: bootstrap_kv_def read_kvs_reads_of)
  then obtain n where
    n: "main f (Some (Inr (length snapshot, reads_of (map item_text snapshot)))) = Inr n"
    and merged: "kv n = dict_update local (dict snapshot)"
    using assms(3) by (simp add: main_def)
  have m: "map_of (kv n) = map_of local ++ map_of snapshot"
    using assms(1) by (simp add: merged map_of_dict_update map_of_dict)
  have "\<forall>(k, v) \<in> set snapshot. get (kv n) k = Some v"
    using assms(1) by (auto simp: get_def m)
  moreover have "\<forall>k. k \<notin> fst ` set snapshot \<longrightarrow> get (kv n) k = get local k"
  proof (intro allI impI)
    fix k
    assume "k \<notin> fst ` set snapshot"
    then have "map_of snapshot k = None"
      by (simp add: map_of_eq_None_iff)
    then show "get (kv n) k = get local k"
      by (simp add: get_def m map_add_def)
  qed
  ultimately show ?thesis
    using n by blast
qed

text \<open>
  Claim C6 (after bootstrap the store has every pair of the snapshot, and keeps the
  recovered value of every other key, before the client socket is opened): the code
  reads another pair than the seed has sent. The client handler of the seed accepts
  \<^verbatim>\<open>set  b<TAB>c\<close> (two spaces) and stores \<^verbatim>\<open>b<TAB>c\<close> under the empty key; the
  seed sends this entry as \<^verbatim>\<open>set  b<TAB>c\<close>; the joining node splits it at white
  space into \<^verbatim>\<open>set\<close>, \<^verbatim>\<open>b\<close>, \<^verbatim>\<open>c\<close>. Bootstrap completes and \<^verbatim>\<open>main\<close> goes on
  to its accept loop: the empty key has no value at the joining node, and its recovered
  key \<^verbatim>\<open>b\<close>, which the seed does not have, has lost its value \<^verbatim>\<open>0\<close>. The order is
  as claimed: the store is updated before the client socket is opened.
\<close>

theorem bootstrap_corrupts_store:
  "handle_client [Inr (''set  b'' @ [CHR 0x09] @ ''c'')] empty_node =
     (None, \<lparr>kv = [([], ustr ''b'' @ [TAB] @ ustr ''c'')],
             kv_log = \<lparr>disk = ustr ''set  b'' @ [TAB] @ ustr ''c'' @ [LF], buffer = []\<rparr>,
             replication_log = [ustr ''set  b'' @ [TAB] @ ustr ''c''],
             trace = [SendStr (Some (ustr ''OK'')), LogWrite (ustr ''set  b'' @ [TAB] @ ustr ''c''),
                      LogWrite [LF], LogFlush, QueuePut (ustr ''set  b'' @ [TAB] @ ustr ''c'')]\<rparr>) \<and>
   replication_handle (Inr ''bootstrap'')
       (empty_node\<lparr>kv := [([], ustr ''b'' @ [TAB] @ ustr ''c'')]\<rparr>) =
     Inr (empty_node\<lparr>kv := [([], ustr ''b'' @ [TAB] @ ustr ''c'')],
            kv_log := \<lparr>disk = ustr ''bootstrap'' @ [LF], buffer = []\<rparr>,
            trace := [SendUInt32 1, SendStr (Some (ustr ''set  b'' @ [TAB] @ ustr ''c'')),
                      LogWrite (ustr ''bootstrap''), LogWrite [LF], LogFlush]\<rparr>) \<and>
   restore_from_file (Bytes (''set b 0'' @ [CHR 0x0A])) = Inr [(ustr ''b'', ustr ''0'')] \<and>
   main (Bytes (''set b 0'' @ [CHR 0x0A]))
       (Some (Inr (1, reads_of [ustr ''set  b'' @ [TAB] @ ustr ''c'']))) =
     Inr \<lparr>kv = [(ustr ''b'', ustr ''c'')],
          kv_log = \<lparr>disk = [], buffer = []\<rparr>,
          replication_log = [],
          trace = [KvUpdate, OpenLog, GossipNode, GossipSeed, GossipStart,
                   StartThread ''replication-listen-thread'',
                   StartThread ''replication-broadcast-thread'',
                   SockBind, SockListen, SignalHandlers, AcceptLoop]\<rparr> \<and>
   get [(ustr ''b'', ustr ''c'')] [] = None"
  by code_simp

end
